theory Spec2Isabelle
  imports Complex_Main
begin

unbundle bit_operations_syntax

section \<open>Vehicle detection and counting: the crossing counter\<close>

text \<open>
  The program is \<^verbatim>\<open>process_video\<close> of \<^verbatim>\<open>car_detection.py\<close>, and its near-duplicate in
  the notebook cell written by \<^verbatim>\<open>create_notebook.py\<close>. The counting logic is the body of
  the loop over the tracks of a frame:
  \<^verbatim>\<open>
      if (line_position - offset) < cy < (line_position + offset):
          if track_id not in counted_ids:
              counted_ids.add(track_id)
              total_count += 1
  \<close>
  The two local variables it mutates, \<^verbatim>\<open>counted_ids\<close> (a Python set) and
  \<^verbatim>\<open>total_count\<close> (an unbounded Python int), form the state of the counter.
\<close>

subsection \<open>State of the counter\<close>

record 'id counter =
  counted_ids :: "'id set"
  total_count :: int

text \<open>\<^verbatim>\<open>counted_ids = set()\<close>, \<^verbatim>\<open>total_count = 0\<close>.\<close>

definition fresh :: "'id counter" where
  "fresh = \<lparr>counted_ids = {}, total_count = 0\<rparr>"

subsection \<open>One observation\<close>

text \<open>
  The counting step for one track: \<open>track_id\<close> and the centroid row \<open>cy\<close>, under the
  line \<open>line_position\<close> and the tolerance \<open>offset\<close>. The Boolean tells whether the inner
  branch ran (the branch that prints \<^verbatim>\<open>Vehicle ... counted!\<close>); the second component is
  the state after the step.
\<close>

definition observe :: "int \<Rightarrow> int \<Rightarrow> 'id \<Rightarrow> int \<Rightarrow> 'id counter \<Rightarrow> bool \<times> 'id counter" where
  "observe line_position offset track_id cy s =
     (if (line_position - offset) < cy \<and> cy < (line_position + offset) then
        if track_id \<notin> counted_ids s then
          (True, s\<lparr>counted_ids := insert track_id (counted_ids s),
                    total_count := total_count s + 1\<rparr>)
        else (False, s)
      else (False, s))"

text \<open>A sequence of observations, each on the state the previous one left.\<close>

fun observe_all :: "int \<Rightarrow> int \<Rightarrow> ('id \<times> int) list \<Rightarrow> 'id counter \<Rightarrow> 'id counter" where
  "observe_all line_position offset [] s = s"
| "observe_all line_position offset ((track_id, cy) # calls) s =
     observe_all line_position offset calls (snd (observe line_position offset track_id cy s))"

text \<open>The identities of a call sequence whose centroid was inside the band at least once.\<close>

definition band_ids :: "int \<Rightarrow> int \<Rightarrow> ('id \<times> int) list \<Rightarrow> 'id set" where
  "band_ids line_position offset calls =
     {track_id. \<exists>cy. (track_id, cy) \<in> set calls \<and>
        (line_position - offset) < cy \<and> cy < (line_position + offset)}"

section \<open>The frame pipeline\<close>

text \<open>
  Floating-point values (the rows of the detector, the boxes of the tracker) are
  modelled by the rational numbers they denote; comparisons of floats are exact on
  those. Infinities and NaN do not occur in scores and pixel coordinates. An arithmetic
  operation on floats rounds its result: the model does not compute the rounding, and
  takes the one operation the program performs on floats it keeps, the subtraction, as a
  parameter.
\<close>

subsection \<open>Conversions\<close>

text \<open>Python's \<^verbatim>\<open>int(x)\<close> on a float: truncation toward zero.\<close>

definition py_int :: "rat \<Rightarrow> int" where
  "py_int q = (if 0 \<le> q then \<lfloor>q\<rfloor> else \<lceil>q\<rceil>)"

subsection \<open>Filtering the detections\<close>

text \<open>
  The value of the Python literal \<^verbatim>\<open>0.4\<close>: the double nearest to 4/10, which is
  3602879701896397 / 2^53 and lies just above 4/10.
\<close>

definition literal_0_4 :: rat where
  "literal_0_4 = 3602879701896397 / 9007199254740992"

text \<open>
  A row of \<^verbatim>\<open>results.boxes.data.tolist()\<close> is \<^verbatim>\<open>x1, y1, x2, y2, score, class_id\<close>;
  a detection handed to the tracker is \<^verbatim>\<open>([x1, y1, x2 - x1, y2 - y1], score, int(class_id))\<close>.
\<close>

type_synonym row = "rat \<times> rat \<times> rat \<times> rat \<times> rat \<times> rat"
type_synonym detection = "rat list \<times> rat \<times> int"

text \<open>
  \<^verbatim>\<open>
      detections = []
      for result in results.boxes.data.tolist():
          x1, y1, x2, y2, score, class_id = result
          if int(class_id) in [2, 3, 5, 7] and score > 0.4:  # Vehicle classes
              detections.append(([x1, y1, x2 - x1, y2 - y1], score, int(class_id)))
  \<close>
  The loop, with the list built so far as accumulator; \<open>sub a b\<close> is the float the
  machine computes for \<^verbatim>\<open>a - b\<close>.
\<close>

fun collect_detections ::
  "(rat \<Rightarrow> rat \<Rightarrow> rat) \<Rightarrow> row list \<Rightarrow> detection list \<Rightarrow> detection list" where
  "collect_detections sub [] detections = detections"
| "collect_detections sub ((x1, y1, x2, y2, score, class_id) # results) detections =
     (if py_int class_id \<in> set [2, 3, 5, 7] \<and> score > literal_0_4
      then collect_detections sub results
             (detections @ [([x1, y1, sub x2 x1, sub y2 y1], score, py_int class_id)])
      else collect_detections sub results detections)"

text \<open>
  The values of single precision (binary32), the precision of the tensor the detector
  returns: the numbers m * 2^e with |m| < 2^24 and -149 <= e <= 104. Here k is e + 149.
\<close>

definition is_float32 :: "rat \<Rightarrow> bool" where
  "is_float32 q \<longleftrightarrow>
     list_ex (\<lambda>k. let n = q * 2 ^ 149 / 2 ^ k in of_int \<lfloor>n\<rfloor> = n \<and> \<bar>n\<bar> < 2 ^ 24)
       [0..<254]"


subsection \<open>Tracks\<close>

text \<open>What the program reads of a track object of the tracker.\<close>

record 'id track =
  track_id :: 'id
  is_confirmed :: bool
  to_ltrb :: "rat \<times> rat \<times> rat \<times> rat"

text \<open>\<^verbatim>\<open>draw_tracking_info\<close> returns \<^verbatim>\<open>x1, y1, x2, y2 = map(int, track.to_ltrb())\<close>.\<close>

definition draw_tracking_info :: "'id track \<Rightarrow> int \<times> int \<times> int \<times> int" where
  "draw_tracking_info track =
     (case to_ltrb track of (l, t, r, b) \<Rightarrow> (py_int l, py_int t, py_int r, py_int b))"

text \<open>
  The loop over the tracks of one frame: unconfirmed tracks are skipped, the centroid
  row is \<^verbatim>\<open>cy = int((y1 + y2) / 2)\<close>, and the counting step follows.
\<close>

fun process_tracks :: "int \<Rightarrow> int \<Rightarrow> 'id track list \<Rightarrow> 'id counter \<Rightarrow> 'id counter" where
  "process_tracks line_position offset [] s = s"
| "process_tracks line_position offset (track # tracks) s =
     (if \<not> is_confirmed track then process_tracks line_position offset tracks s
      else
        (case draw_tracking_info track of (x1, y1, x2, y2) \<Rightarrow>
           let cy = py_int (of_int (y1 + y2) / 2)
           in process_tracks line_position offset tracks
                (snd (observe line_position offset (track_id track) cy s))))"

subsection \<open>Exceptions, effects and the collaborators\<close>

text \<open>
  The exceptions the handler \<^verbatim>\<open>except Exception\<close> catches: the two \<^verbatim>\<open>ValueError\<close>s the
  program raises itself, and whatever the detector or the tracker raises on a frame.
\<close>

datatype error = ValueError string | CollaboratorError string

text \<open>The effects of a run on its resources, in the order they happen.\<close>

datatype event =
    ModelLoaded
  | TrackerCreated
  | CaptureCreated
  | WriterCreated
  | FrameRead
  | FrameShown
  | FrameWritten
  | CaptureReleased
  | WriterReleased
  | WindowsDestroyed

text \<open>
  What the outside world answers on one frame that \<^verbatim>\<open>cap.read()\<close> delivers: the rows
  of \<^verbatim>\<open>model(frame)[0].boxes.data.tolist()\<close> or the exception raised, the answer of
  \<^verbatim>\<open>tracker.update_tracks(detections, frame=frame)\<close> to the detections it is given, and
  the value of \<^verbatim>\<open>cv2.waitKey(1)\<close>.
\<close>

record 'id frame_io =
  boxes :: "error + row list"
  update_tracks :: "detection list \<Rightarrow> error + 'id track list"
  wait_key :: int

text \<open>
  A run's environment: the path the file dialog returns (empty when cancelled), whether
  the capture opens, the frame height it reports, and the frames it delivers before
  \<^verbatim>\<open>cap.read()\<close> returns \<^verbatim>\<open>ret = False\<close>; and the subtraction of the machine's floats.
  Loading the model, creating the tracker, creating the writer and the release calls are
  taken to succeed.
\<close>

record 'id world =
  chosen_path :: string
  opens :: bool
  frame_height :: int
  stream :: "'id frame_io list"
  float_sub :: "rat \<Rightarrow> rat \<Rightarrow> rat"

subsection \<open>The functions of the program\<close>

definition select_video :: "'id world \<Rightarrow> error + string" where
  "select_video w =
     (let video_path = chosen_path w
      in if video_path = [] then Inl (ValueError ''No video file selected'')
         else Inr video_path)"

text \<open>\<^verbatim>\<open>video_path.rsplit('.', 1)[0] + '_processed.mp4'\<close>\<close>

definition output_path_of :: "string \<Rightarrow> string" where
  "output_path_of video_path =
     (if CHR ''.'' \<in> set video_path
      then rev (tl (dropWhile (\<lambda>c. c \<noteq> CHR ''.'') (rev video_path)))
      else video_path) @ ''_processed.mp4''"

text \<open>
  The \<^verbatim>\<open>while cap.isOpened()\<close> loop, one iteration per delivered frame. It ends when the
  stream is exhausted (\<^verbatim>\<open>if not ret: break\<close>), when the key \<^verbatim>\<open>q\<close> is read
  (\<^verbatim>\<open>cv2.waitKey(1) & 0xFF == ord('q')\<close>, and \<^verbatim>\<open>ord('q')\<close> is 113), or when a collaborator
  raises. The result is the exception, or the total at the end of the loop.
\<close>

fun frame_loop ::
  "(rat \<Rightarrow> rat \<Rightarrow> rat) \<Rightarrow> int \<Rightarrow> int \<Rightarrow> 'id frame_io list \<Rightarrow> 'id counter \<Rightarrow> event list
     \<Rightarrow> (error + int) \<times> event list" where
  "frame_loop sub line_position offset [] s evs = (Inr (total_count s), evs)"
| "frame_loop sub line_position offset (f # fs) s evs =
     (case boxes f of
        Inl e \<Rightarrow> (Inl e, evs @ [FrameRead])
      | Inr results \<Rightarrow>
          (case update_tracks f (collect_detections sub results []) of
             Inl e \<Rightarrow> (Inl e, evs @ [FrameRead])
           | Inr tracks \<Rightarrow>
               let s' = process_tracks line_position offset tracks s;
                   evs' = evs @ [FrameRead, FrameShown, FrameWritten]
               in if wait_key f AND 255 = 113 then (Inr (total_count s'), evs')
                  else frame_loop sub line_position offset fs s' evs'))"

text \<open>
  The \<^verbatim>\<open>try\<close> block of \<^verbatim>\<open>process_video\<close> in \<^verbatim>\<open>car_detection.py\<close>. Beside the result and
  the effects so far it tells which of the locals \<^verbatim>\<open>cap\<close> and \<^verbatim>\<open>out\<close> are bound, which
  the handler asks (\<^verbatim>\<open>'cap' in locals()\<close>).
\<close>

record run_state =
  events :: "event list"
  cap_bound :: bool
  out_bound :: bool

definition process_video_try :: "'id world \<Rightarrow> (error + int \<times> string) \<times> run_state" where
  "process_video_try w =
     (case select_video w of
        Inl e \<Rightarrow> (Inl e, \<lparr>events = [], cap_bound = False, out_bound = False\<rparr>)
      | Inr video_path \<Rightarrow>
          if \<not> opens w then
            (Inl (ValueError (''Could not open video file: '' @ video_path)),
             \<lparr>events = [ModelLoaded, TrackerCreated, CaptureCreated],
              cap_bound = True, out_bound = False\<rparr>)
          else
            let output_path = output_path_of video_path;
                line_position = frame_height w div 2;
                offset = 10
            in (case frame_loop (float_sub w) line_position offset (stream w) fresh
                       [ModelLoaded, TrackerCreated, CaptureCreated, WriterCreated] of
                  (Inl e, evs') \<Rightarrow>
                    (Inl e, \<lparr>events = evs', cap_bound = True, out_bound = True\<rparr>)
                | (Inr total_count', evs') \<Rightarrow>
                    (Inr (total_count', output_path),
                     \<lparr>events = evs' @ [CaptureReleased, WriterReleased, WindowsDestroyed],
                      cap_bound = True, out_bound = True\<rparr>)))"

text \<open>
  \<^verbatim>\<open>process_video\<close> of \<^verbatim>\<open>car_detection.py\<close>: the \<^verbatim>\<open>try\<close> block, and on an exception
  the handler, which releases what is bound, destroys the windows and re-raises.
\<close>

definition process_video :: "'id world \<Rightarrow> (error + int \<times> string) \<times> event list" where
  "process_video w =
     (case process_video_try w of
        (Inl e, st) \<Rightarrow>
          (Inl e,
           events st @ (if cap_bound st then [CaptureReleased] else [])
                  @ (if out_bound st then [WriterReleased] else [])
                  @ [WindowsDestroyed])
      | (Inr r, st) \<Rightarrow> (Inr r, events st))"

text \<open>
  \<^verbatim>\<open>process_video\<close> of the notebook cell in \<^verbatim>\<open>create_notebook.py\<close>: no \<^verbatim>\<open>try\<close>, no
  test that the capture opened (a capture that did not open makes the loop condition
  false at once), and the line fixed at row 300.
\<close>

definition process_video_notebook :: "'id world \<Rightarrow> (error + int \<times> string) \<times> event list" where
  "process_video_notebook w =
     (case select_video w of
        Inl e \<Rightarrow> (Inl e, [])
      | Inr video_path \<Rightarrow>
          let output_path = output_path_of video_path;
              line_position = 300;
              offset = 10
          in (case frame_loop (float_sub w) line_position offset
                     (if opens w then stream w else []) fresh
                     [ModelLoaded, TrackerCreated, CaptureCreated, WriterCreated] of
                (Inl e, evs') \<Rightarrow> (Inl e, evs')
              | (Inr total_count', evs') \<Rightarrow>
                  (Inr (total_count', output_path),
                   evs' @ [CaptureReleased, WriterReleased, WindowsDestroyed])))"

text \<open>
  In a log, every occurrence of the event \<open>c\<close> is followed, later, by the event \<open>r\<close>.
\<close>

fun released_after :: "event \<Rightarrow> event \<Rightarrow> event list \<Rightarrow> bool" where
  "released_after c r [] = True"
| "released_after c r (e # es) =
     ((if e = c then r \<in> set es else True) \<and> released_after c r es)"

text \<open>
  The exception a frame makes the loop raise, if any: the detector's, else the
  tracker's on the filtered detections.
\<close>

definition frame_failure :: "(rat \<Rightarrow> rat \<Rightarrow> rat) \<Rightarrow> 'id frame_io \<Rightarrow> error option" where
  "frame_failure sub f =
     (case boxes f of
        Inl e \<Rightarrow> Some e
      | Inr results \<Rightarrow>
          (case update_tracks f (collect_detections sub results []) of
             Inl e \<Rightarrow> Some e
           | Inr tracks \<Rightarrow> None))"

text \<open>A frame that is processed to its end without the key \<^verbatim>\<open>q\<close> being read.\<close>

definition frame_passes :: "(rat \<Rightarrow> rat \<Rightarrow> rat) \<Rightarrow> 'id frame_io \<Rightarrow> bool" where
  "frame_passes sub f \<longleftrightarrow> frame_failure sub f = None \<and> wait_key f AND 255 \<noteq> 113"

text \<open>The observations the loop over the tracks of a frame makes, in order.\<close>

definition track_calls :: "'id track list \<Rightarrow> ('id \<times> int) list" where
  "track_calls tracks =
     map (\<lambda>track. case draw_tracking_info track of
                     (x1, y1, x2, y2) \<Rightarrow> (track_id track, py_int (of_int (y1 + y2) / 2)))
       (filter is_confirmed tracks)"

section \<open>Properties of the crossing counter\<close>

subsection \<open>Auxiliary facts\<close>

lemma observe_counted_ids:
  "counted_ids (snd (observe lp off t cy s)) =
     (if lp - off < cy \<and> cy < lp + off then insert t (counted_ids s) else counted_ids s)"
  by (auto simp: observe_def)

lemma observe_total_count:
  "total_count (snd (observe lp off t cy s)) =
     (if lp - off < cy \<and> cy < lp + off \<and> t \<notin> counted_ids s
      then total_count s + 1 else total_count s)"
  by (simp add: observe_def)

lemma band_ids_Nil: "band_ids lp off [] = {}"
  by (simp add: band_ids_def)

lemma band_ids_Cons:
  "band_ids lp off ((t, cy) # calls) =
     (if lp - off < cy \<and> cy < lp + off then insert t (band_ids lp off calls)
      else band_ids lp off calls)"
  by (auto simp: band_ids_def)

lemma finite_band_ids: "finite (band_ids lp off calls)"
proof -
  have "band_ids lp off calls \<subseteq> fst ` set calls"
    by (force simp: band_ids_def)
  then show ?thesis
    by (rule finite_subset) simp
qed

lemma observe_all_counted_ids:
  "counted_ids (observe_all lp off calls s) = counted_ids s \<union> band_ids lp off calls"
proof (induction calls arbitrary: s)
  case Nil
  show ?case by (simp add: band_ids_Nil)
next
  case (Cons c calls)
  obtain t cy where c: "c = (t, cy)" by (cases c)
  show ?case
    unfolding c by (simp add: Cons.IH observe_counted_ids band_ids_Cons)
qed

text \<open>The counter and the set stay in step: an inductive invariant of one observation.\<close>

definition in_step :: "'id counter \<Rightarrow> bool" where
  "in_step s \<longleftrightarrow> finite (counted_ids s) \<and> total_count s = int (card (counted_ids s))"

lemma in_step_fresh: "in_step fresh"
  by (simp add: in_step_def fresh_def)

lemma in_step_observe:
  assumes "in_step s"
  shows "in_step (snd (observe lp off t cy s))"
  using assms by (simp add: in_step_def observe_def)

lemma in_step_observe_all:
  "in_step s \<Longrightarrow> in_step (observe_all lp off calls s)"
proof (induction calls arbitrary: s)
  case Nil
  then show ?case by simp
next
  case (Cons c calls)
  obtain t cy where c: "c = (t, cy)" by (cases c)
  from Cons.prems have "in_step (snd (observe lp off t cy s))"
    by (rule in_step_observe)
  then show ?case
    unfolding c by (simp add: Cons.IH)
qed

lemma observe_all_append:
  "observe_all lp off (pre @ post) s = observe_all lp off post (observe_all lp off pre s)"
  by (induction pre arbitrary: s) auto

lemma observe_total_mono: "total_count s \<le> total_count (snd (observe lp off t cy s))"
  by (simp add: observe_total_count)

lemma observe_all_total_mono: "total_count s \<le> total_count (observe_all lp off calls s)"
proof (induction calls arbitrary: s)
  case Nil
  show ?case by simp
next
  case (Cons c calls)
  obtain t cy where c: "c = (t, cy)" by (cases c)
  have "total_count s \<le> total_count (snd (observe lp off t cy s))"
    by (rule observe_total_mono)
  also have "\<dots> \<le> total_count (observe_all lp off calls (snd (observe lp off t cy s)))"
    by (rule Cons.IH)
  finally show ?case
    unfolding c by simp
qed

subsection \<open>The claims\<close>

text \<open>
  C1. A call of observe returns true exactly when the centroid lies strictly inside
  (line_position - offset, line_position + offset) and the identity is not yet in the
  counted set. In that case the total grows by exactly one and the identity is added to
  the set; in every other case the call returns false and the state is left as it was.
\<close>

theorem observe_true_iff:
  "(fst (observe lp off t cy s) \<longleftrightarrow>
      (lp - off < cy \<and> cy < lp + off) \<and> t \<notin> counted_ids s) \<and>
   snd (observe lp off t cy s) =
     (if fst (observe lp off t cy s)
      then s\<lparr>counted_ids := insert t (counted_ids s), total_count := total_count s + 1\<rparr>
      else s)"
  by (auto simp: observe_def)

text \<open>
  C2. After any finite sequence of observations on a fresh counter, the total is the
  number of distinct identities whose centroid was strictly inside the band on at least
  one of their calls; so an identity adds at most one, however many of its calls are in
  the band, and the total never exceeds the number of distinct identities observed.
\<close>

theorem total_is_number_of_band_ids:
  "total_count (observe_all lp off calls fresh) = int (card (band_ids lp off calls)) \<and>
   total_count (observe_all lp off calls fresh) \<le> int (card (fst ` set calls))"
proof -
  have "in_step (observe_all lp off calls (fresh :: 'a counter))"
    by (rule in_step_observe_all [OF in_step_fresh])
  then have "total_count (observe_all lp off calls (fresh :: 'a counter)) =
      int (card (counted_ids (observe_all lp off calls (fresh :: 'a counter))))"
    by (simp add: in_step_def)
  then have eq: "total_count (observe_all lp off calls (fresh :: 'a counter)) =
      int (card (band_ids lp off calls))"
    by (simp add: observe_all_counted_ids fresh_def)
  have "band_ids lp off calls \<subseteq> fst ` set calls"
    by (force simp: band_ids_def)
  then have "card (band_ids lp off calls) \<le> card (fst ` set calls)"
    by (intro card_mono) simp_all
  with eq show ?thesis by simp
qed

text \<open>
  C3. Once an identity is in the counted set, a further observation of it with a centroid
  inside the band returns false and changes neither the total nor the set.
\<close>

theorem observe_counted_again:
  assumes "t \<in> counted_ids s"
    and "lp - off < cy" and "cy < lp + off"
  shows "fst (observe lp off t cy s) = False \<and>
         total_count (snd (observe lp off t cy s)) = total_count s \<and>
         counted_ids (snd (observe lp off t cy s)) = counted_ids s"
  using assms by (simp add: observe_def)

theorem observe_counted_again_witness:
  "(7::nat) \<in> counted_ids \<lparr>counted_ids = {7}, total_count = 1\<rparr> \<and>
   (200::int) - 10 < 205 \<and> (205::int) < 200 + 10 \<and>
   fst (observe 200 10 (7::nat) 205 \<lparr>counted_ids = {7}, total_count = 1\<rparr>) = False \<and>
   total_count (snd (observe 200 10 (7::nat) 205 \<lparr>counted_ids = {7}, total_count = 1\<rparr>)) = 1"
  using observe_counted_again [of "7::nat" "\<lparr>counted_ids = {7}, total_count = 1\<rparr>" 200 10 205]
  by simp

text \<open>
  C4. The state of the counter only grows. After one observation the counted set
  contains the set before it and the total is not smaller; the same holds from any state
  across any sequence of observations, hence between any two points of a run.
\<close>

theorem counter_only_grows:
  "counted_ids s \<subseteq> counted_ids (snd (observe lp off t cy s)) \<and>
   total_count s \<le> total_count (snd (observe lp off t cy s)) \<and>
   counted_ids s \<subseteq> counted_ids (observe_all lp off calls s) \<and>
   total_count s \<le> total_count (observe_all lp off calls s) \<and>
   counted_ids (observe_all lp off pre s) \<subseteq> counted_ids (observe_all lp off (pre @ post) s) \<and>
   total_count (observe_all lp off pre s) \<le> total_count (observe_all lp off (pre @ post) s)"
proof -
  have one: "counted_ids s \<subseteq> counted_ids (snd (observe lp off t cy s))"
    by (auto simp: observe_counted_ids)
  have many: "counted_ids s' \<subseteq> counted_ids (observe_all lp off cs s')" for s' :: "'a counter" and cs
    by (simp add: observe_all_counted_ids)
  have tot: "total_count s' \<le> total_count (observe_all lp off cs s')" for s' :: "'a counter" and cs
    by (rule observe_all_total_mono)
  show ?thesis
    unfolding observe_all_append
    by (intro conjI one many tot observe_total_mono)
qed

text \<open>
  C5. The boundaries of the band are exclusive: for an identity not yet counted, an
  observation at line_position - offset and one at line_position + offset return false,
  while an observation at line_position returns true when offset is positive (the
  program sets offset = 10).
\<close>

theorem band_boundaries_exclusive:
  assumes "t \<notin> counted_ids s" and "0 < off"
  shows "fst (observe lp off t (lp - off) s) = False \<and>
         fst (observe lp off t (lp + off) s) = False \<and>
         fst (observe lp off t lp s) = True"
  using assms by (simp add: observe_def)

theorem band_boundaries_exclusive_witness:
  "(1::nat) \<notin> counted_ids (fresh :: nat counter) \<and> (0::int) < 10 \<and>
   fst (observe 200 10 (1::nat) (200 - 10) fresh) = False \<and>
   fst (observe 200 10 (1::nat) (200 + 10) fresh) = False \<and>
   fst (observe 200 10 (1::nat) 200 fresh) = True"
  using band_boundaries_exclusive [of "1::nat" fresh 10 200]
  by (simp add: fresh_def)

text \<open>
  C9. After every observation of a run that starts from a fresh counter, the total is
  the cardinality of the counted set (which is finite).
\<close>

theorem total_is_card_counted:
  "finite (counted_ids (observe_all lp off calls fresh)) \<and>
   total_count (observe_all lp off calls fresh) =
     int (card (counted_ids (observe_all lp off calls fresh)))"
proof -
  have "in_step (observe_all lp off calls (fresh :: 'a counter))"
    by (rule in_step_observe_all [OF in_step_fresh])
  then show ?thesis
    by (simp add: in_step_def)
qed

text \<open>
  C10. Observations of two distinct identities commute: from any state, observing
  (id1, y1) and then (id2, y2) leaves the same counted set and the same total as
  observing them in the opposite order.
\<close>

theorem observe_commutes:
  assumes "t1 \<noteq> t2"
  shows "snd (observe lp off t2 y2 (snd (observe lp off t1 y1 s))) =
         snd (observe lp off t1 y1 (snd (observe lp off t2 y2 s)))"
  using assms by (auto simp: observe_def insert_commute)

theorem observe_commutes_witness:
  "(1::nat) \<noteq> 2 \<and>
   snd (observe 200 10 (2::nat) 195 (snd (observe 200 10 1 205 fresh))) =
     \<lparr>counted_ids = {1, 2}, total_count = 2\<rparr> \<and>
   snd (observe 200 10 (1::nat) 205 (snd (observe 200 10 2 195 fresh))) =
     \<lparr>counted_ids = {1, 2}, total_count = 2\<rparr>"
  using observe_commutes [of "1::nat" 2 200 10 195 205 fresh]
  by (auto simp: observe_def fresh_def)

section \<open>Properties of the frame pipeline\<close>

subsection \<open>Auxiliary facts\<close>

lemma py_int_of_int: "py_int (of_int k) = k"
  by (simp add: py_int_def)



lemma is_float32E:
  assumes "is_float32 q"
  obtains k m where "\<bar>m\<bar> < 2 ^ 24" and "q * 2 ^ 149 = of_int m * 2 ^ k"
proof -
  from assms obtain k where n: "of_int \<lfloor>q * 2 ^ 149 / 2 ^ k\<rfloor> = q * 2 ^ 149 / 2 ^ k"
    and b: "\<bar>q * 2 ^ 149 / 2 ^ k\<bar> < 2 ^ 24"
    by (auto simp: is_float32_def list_ex_iff Let_def)
  define m where "m = \<lfloor>q * 2 ^ 149 / 2 ^ k\<rfloor>"
  have eq: "of_int m = q * 2 ^ 149 / 2 ^ k"
    using n by (simp add: m_def)
  then have "q * 2 ^ 149 = of_int m * 2 ^ k"
    by simp
  moreover have "\<bar>(of_int m :: rat)\<bar> < 2 ^ 24"
    using b eq by simp
  then have "\<bar>m\<bar> < 2 ^ 24"
    by (metis of_int_abs of_int_less_numeral_power_cancel_iff)
  ultimately show ?thesis
    using that by blast
qed

text \<open>A single-precision value above 1/4 is a multiple of 2^-25.\<close>

lemma float32_multiple:
  assumes "is_float32 q" and "1 / 4 < q"
  obtains n :: int where "q * 2 ^ 25 = of_int n"
proof -
  from assms(1) obtain k m where m: "\<bar>m\<bar> < 2 ^ 24"
    and eq: "q * 2 ^ 149 = of_int m * 2 ^ k"
    by (rule is_float32E)
  have k: "124 \<le> k"
  proof (rule ccontr)
    assume "\<not> 124 \<le> k"
    then have "k \<le> 123" by simp
    then have p: "(2::rat) ^ k \<le> 2 ^ 123"
      by (intro power_increasing) simp_all
    have "m \<le> 2 ^ 24"
      using m by simp
    then have "(of_int m :: rat) \<le> 2 ^ 24"
      by (metis of_int_le_numeral_power_cancel_iff)
    have "of_int m * (2::rat) ^ k \<le> 2 ^ 24 * 2 ^ 123"
    proof (cases "0 \<le> m")
      case True
      then show ?thesis
        using \<open>(of_int m :: rat) \<le> 2 ^ 24\<close> p by (intro mult_mono) simp_all
    next
      case False
      then have "of_int m * (2::rat) ^ k \<le> 0"
        by (simp add: mult_le_0_iff)
      then show ?thesis by simp
    qed
    moreover have "(2::rat) ^ 24 * 2 ^ 123 = 1 / 4 * 2 ^ 149"
      by simp
    moreover have "1 / 4 * 2 ^ 149 < q * (2::rat) ^ 149"
      using assms(2) by simp
    ultimately show False
      using eq by simp
  qed
  then obtain j where j: "k = 124 + j"
    using le_Suc_ex by blast
  have "q * 2 ^ 25 * 2 ^ 124 = of_int m * 2 ^ j * 2 ^ 124"
    using eq unfolding j by (simp add: power_add)
  then have "q * 2 ^ 25 = of_int (m * 2 ^ j)"
    by simp
  then show ?thesis
    by (rule that)
qed

text \<open>
  No single-precision value lies from 4/10 up to the double 0.4: on such scores, being
  at least 4/10 and being strictly greater than the literal are the same.
\<close>

lemma float32_threshold:
  assumes "is_float32 q"
  shows "(4 / 10 \<le> q) = (literal_0_4 < q)"
proof (cases "1 / 4 < q")
  case False
  then show ?thesis by (simp add: literal_0_4_def)
next
  case True
  with assms obtain n :: int where n: "q * 2 ^ 25 = of_int n"
    by (rule float32_multiple)
  then have q: "q = of_int n / 2 ^ 25"
    by simp
  have a: "(4 / 10 \<le> q) = (13421773 \<le> n)"
  proof -
    have "(4 / 10 \<le> q) = ((134217728 :: rat) \<le> of_int (10 * n))"
      unfolding q by (simp add: field_simps)
    also have "\<dots> = (134217728 \<le> 10 * n)"
      by (metis of_int_le_iff of_int_numeral)
    also have "\<dots> = (13421773 \<le> n)"
      by linarith
    finally show ?thesis .
  qed
  have b: "(literal_0_4 < q) = (13421773 \<le> n)"
  proof -
    have "(literal_0_4 < q) = ((3602879701896397 :: rat) < of_int (268435456 * n))"
      unfolding q literal_0_4_def by (simp add: field_simps)
    also have "\<dots> = (3602879701896397 < 268435456 * n)"
      by (metis of_int_less_iff of_int_numeral)
    also have "\<dots> = (13421773 \<le> n)"
      by linarith
    finally show ?thesis .
  qed
  show ?thesis
    unfolding a b by (rule refl)
qed



text \<open>The loop over the tracks is the counter run on the confirmed tracks' centroids.\<close>

lemma process_tracks_observe_all:
  "process_tracks lp off tracks s = observe_all lp off (track_calls tracks) s"
proof (induction tracks arbitrary: s)
  case Nil
  show ?case by (simp add: track_calls_def)
next
  case (Cons track tracks)
  show ?case
  proof (cases "is_confirmed track")
    case False
    with Cons.IH show ?thesis by (simp add: track_calls_def)
  next
    case True
    obtain x1 y1 x2 y2 where "draw_tracking_info track = (x1, y1, x2, y2)"
      by (cases "draw_tracking_info track")
    with True Cons.IH show ?thesis by (simp add: track_calls_def)
  qed
qed

lemma released_after_absent: "c \<notin> set ys \<Longrightarrow> released_after c r ys"
  by (induction ys) auto

lemma released_after_append:
  "r \<in> set ys \<Longrightarrow> c \<notin> set ys \<Longrightarrow> released_after c r (xs @ ys)"
  by (induction xs) (auto simp: released_after_absent)

text \<open>The loop only appends to the log, and only frame events.\<close>

lemma frame_loop_events:
  "\<exists>extra. snd (frame_loop sub lp off fs s evs) = evs @ extra \<and>
           set extra \<subseteq> {FrameRead, FrameShown, FrameWritten}"
proof (induction fs arbitrary: s evs)
  case Nil
  show ?case by simp
next
  case (Cons f fs)
  show ?case
  proof (cases "boxes f")
    case (Inl e)
    then show ?thesis by simp
  next
    case (Inr results)
    show ?thesis
    proof (cases "update_tracks f (collect_detections sub results [])")
      case (Inl e)
      with Inr show ?thesis by simp
    next
      case tr: (Inr tracks)
      show ?thesis
      proof (cases "wait_key f AND 255 = 113")
        case True
        with Inr tr show ?thesis by (simp add: Let_def)
      next
        case False
        obtain extra where
          "snd (frame_loop sub lp off fs (process_tracks lp off tracks s)
                  (evs @ [FrameRead, FrameShown, FrameWritten])) =
             (evs @ [FrameRead, FrameShown, FrameWritten]) @ extra"
          and "set extra \<subseteq> {FrameRead, FrameShown, FrameWritten}"
          using Cons.IH by blast
        with Inr tr False show ?thesis
          by (simp add: Let_def)
      qed
    qed
  qed
qed

text \<open>The first frame that fails ends the loop with its exception.\<close>

lemma frame_loop_failure:
  assumes "list_all (frame_passes sub) pre" and "frame_failure sub f = Some e"
  shows "fst (frame_loop sub lp off (pre @ f # post) s evs) = Inl e"
  using assms
proof (induction pre arbitrary: s evs)
  case Nil
  then show ?case
    by (auto simp: frame_failure_def split: sum.splits)
next
  case (Cons g pre)
  from Cons.prems have "frame_passes sub g" and pre: "list_all (frame_passes sub) pre"
    by simp_all
  then have g: "frame_failure sub g = None" "wait_key g AND 255 \<noteq> 113"
    by (simp_all add: frame_passes_def)
  from g(1) obtain results tracks where
    "boxes g = Inr results" "update_tracks g (collect_detections sub results []) = Inr tracks"
    by (auto simp: frame_failure_def split: sum.splits)
  with g(2) show ?case
    by (simp add: Let_def Cons.IH [OF pre Cons.prems(2)])
qed

text \<open>A run of \<^verbatim>\<open>car_detection.py\<close> whose capture opened, in terms of its loop.\<close>

lemma process_video_opened:
  assumes "chosen_path w \<noteq> []" and "opens w"
  shows "process_video w =
     (map_sum id (\<lambda>n. (n, output_path_of (chosen_path w)))
        (fst (frame_loop (float_sub w) (frame_height w div 2) 10 (stream w) fresh
                [ModelLoaded, TrackerCreated, CaptureCreated, WriterCreated])),
      snd (frame_loop (float_sub w) (frame_height w div 2) 10 (stream w) fresh
                [ModelLoaded, TrackerCreated, CaptureCreated, WriterCreated])
        @ [CaptureReleased, WriterReleased, WindowsDestroyed])"
proof -
  obtain r evs where loop:
    "frame_loop (float_sub w) (frame_height w div 2) 10 (stream w) (fresh :: 'a counter)
       [ModelLoaded, TrackerCreated, CaptureCreated, WriterCreated] = (r, evs)"
    by (cases "frame_loop (float_sub w) (frame_height w div 2) 10 (stream w) (fresh :: 'a counter)
       [ModelLoaded, TrackerCreated, CaptureCreated, WriterCreated]")
  show ?thesis
  proof (cases r)
    case (Inl e)
    with assms loop show ?thesis
      by (simp add: process_video_def process_video_try_def select_video_def)
  next
    case (Inr n)
    with assms loop show ?thesis
      by (simp add: process_video_def process_video_try_def select_video_def)
  qed
qed

lemma process_video_cases:
  "snd (process_video w) = [WindowsDestroyed] \<or>
   snd (process_video w) =
     [ModelLoaded, TrackerCreated, CaptureCreated, CaptureReleased, WindowsDestroyed] \<or>
   (\<exists>extra. snd (process_video w) =
      ([ModelLoaded, TrackerCreated, CaptureCreated, WriterCreated] @ extra) @
        [CaptureReleased, WriterReleased, WindowsDestroyed] \<and>
      set extra \<subseteq> {FrameRead, FrameShown, FrameWritten})"
proof (cases "chosen_path w = []")
  case True
  then show ?thesis
    by (simp add: process_video_def process_video_try_def select_video_def)
next
  case path: False
  show ?thesis
  proof (cases "opens w")
    case False
    with path show ?thesis
      by (simp add: process_video_def process_video_try_def select_video_def)
  next
    case True
    obtain extra where
      "snd (frame_loop (float_sub w) (frame_height w div 2) 10 (stream w) (fresh :: 'a counter)
              [ModelLoaded, TrackerCreated, CaptureCreated, WriterCreated]) =
         [ModelLoaded, TrackerCreated, CaptureCreated, WriterCreated] @ extra"
      and "set extra \<subseteq> {FrameRead, FrameShown, FrameWritten}"
      using frame_loop_events by blast
    then show ?thesis
      unfolding process_video_opened [OF path True] by auto
  qed
qed

text \<open>
  Every exit of \<^verbatim>\<open>process_video\<close> in \<^verbatim>\<open>car_detection.py\<close>, normal or by an exception
  that \<^verbatim>\<open>except Exception\<close> catches, has released the capture and the writer it created
  and destroyed the windows it showed, and destroying the windows is the last thing it
  does. (An interrupt such as \<^verbatim>\<open>KeyboardInterrupt\<close> is not an \<^verbatim>\<open>Exception\<close> and is outside
  the model.)
\<close>

lemma process_video_releases:
  "released_after CaptureCreated CaptureReleased (snd (process_video w)) \<and>
   released_after WriterCreated WriterReleased (snd (process_video w)) \<and>
   released_after FrameShown WindowsDestroyed (snd (process_video w)) \<and>
   last (snd (process_video w)) = WindowsDestroyed"
  using process_video_cases [of w]
proof (elim disjE exE conjE)
  fix extra
  assume evs: "snd (process_video w) =
      ([ModelLoaded, TrackerCreated, CaptureCreated, WriterCreated] @ extra) @
        [CaptureReleased, WriterReleased, WindowsDestroyed]"
  show ?thesis
    unfolding evs by (intro conjI released_after_append) simp_all
qed simp_all

text \<open>
  A failure in the loop of \<^verbatim>\<open>car_detection.py\<close> reaches the caller as the same exception.
\<close>

lemma process_video_reraises:
  assumes "chosen_path w \<noteq> []" and "opens w"
    and "stream w = pre @ f # post"
    and "list_all (frame_passes (float_sub w)) pre" and "frame_failure (float_sub w) f = Some e"
  shows "fst (process_video w) = Inl e"
  by (simp add: process_video_opened [OF assms(1,2)] assms(3)
      frame_loop_failure [OF assms(4,5)])

text \<open>
  The same failure in the notebook's \<^verbatim>\<open>process_video\<close> also reaches the caller, but no
  release call has run.
\<close>

lemma process_video_notebook_failure:
  assumes "chosen_path w \<noteq> []" and "opens w"
    and "stream w = pre @ f # post"
    and "list_all (frame_passes (float_sub w)) pre" and "frame_failure (float_sub w) f = Some e"
  shows "fst (process_video_notebook w) = Inl e \<and>
         CaptureReleased \<notin> set (snd (process_video_notebook w)) \<and>
         WriterReleased \<notin> set (snd (process_video_notebook w)) \<and>
         WindowsDestroyed \<notin> set (snd (process_video_notebook w))"
proof -
  let ?loop = "frame_loop (float_sub w) 300 10 (stream w) (fresh :: 'a counter)
       [ModelLoaded, TrackerCreated, CaptureCreated, WriterCreated]"
  have failed: "fst ?loop = Inl e"
    unfolding assms(3) by (rule frame_loop_failure [OF assms(4,5)])
  obtain extra where extra: "snd ?loop =
      [ModelLoaded, TrackerCreated, CaptureCreated, WriterCreated] @ extra"
    "set extra \<subseteq> {FrameRead, FrameShown, FrameWritten}"
    using frame_loop_events by blast
  obtain r evs where loop: "?loop = (r, evs)"
    by (cases ?loop)
  with failed extra have "r = Inl e"
    and "evs = [ModelLoaded, TrackerCreated, CaptureCreated, WriterCreated] @ extra"
    by simp_all
  with loop assms(1,2) extra(2) show ?thesis
    by (auto simp: process_video_notebook_def select_video_def)
qed

subsection \<open>The claims\<close>



text \<open>
  The hypothesis on the score is needed for doubles in general: a score equal to the
  double 0.4 itself, which is not a single-precision value, is dropped.
\<close>

lemma score_equal_literal_dropped:
  "\<not> is_float32 literal_0_4 \<and>
   collect_detections sub [(x1, y1, x2, y2, literal_0_4, 2)] [] = []"
  using float32_threshold [of literal_0_4] by (auto simp: literal_0_4_def)

text \<open>
  C7. Every exit of a run releases the input stream, the output sink and the display,
  and a failure in the loop is raised again. The notebook's \<^verbatim>\<open>process_video\<close> does not:
  when the detector raises on the first frame, the exception leaves the function with
  the capture and the writer created and nothing released, where on the same input
  \<^verbatim>\<open>process_video\<close> of \<^verbatim>\<open>car_detection.py\<close> releases both and destroys the windows.
\<close>

theorem notebook_failure_releases_nothing:
  "process_video_notebook
     \<lparr>chosen_path = ''clip.mp4'', opens = True, frame_height = 400,
      stream = [\<lparr>boxes = Inl (CollaboratorError ''detector''),
                 update_tracks = (\<lambda>detections. Inr ([] :: nat track list)),
                 wait_key = - 1\<rparr>],
      float_sub = (\<lambda>a b. a - b)\<rparr> =
     (Inl (CollaboratorError ''detector''),
      [ModelLoaded, TrackerCreated, CaptureCreated, WriterCreated, FrameRead]) \<and>
   process_video
     \<lparr>chosen_path = ''clip.mp4'', opens = True, frame_height = 400,
      stream = [\<lparr>boxes = Inl (CollaboratorError ''detector''),
                 update_tracks = (\<lambda>detections. Inr ([] :: nat track list)),
                 wait_key = - 1\<rparr>],
      float_sub = (\<lambda>a b. a - b)\<rparr> =
     (Inl (CollaboratorError ''detector''),
      [ModelLoaded, TrackerCreated, CaptureCreated, WriterCreated, FrameRead,
       CaptureReleased, WriterReleased, WindowsDestroyed])"
  by (simp add: process_video_notebook_def process_video_def process_video_try_def
      select_video_def)

text \<open>
  C8. When the file dialog returns no path, \<^verbatim>\<open>process_video\<close> of \<^verbatim>\<open>car_detection.py\<close>
  fails with \<^verbatim>\<open>ValueError\<close> and its only effect is the handler's call that destroys the
  windows: no model, tracker, capture or writer was created. When a path was chosen and
  the capture does not open, it fails with \<^verbatim>\<open>ValueError\<close> as well, before the writer is
  created and before any frame is read, and the capture is released.
\<close>

theorem abort_before_processing:
  "(chosen_path w = [] \<longrightarrow>
      process_video w = (Inl (ValueError ''No video file selected''), [WindowsDestroyed])) \<and>
   (chosen_path w \<noteq> [] \<and> \<not> opens w \<longrightarrow>
      process_video w =
        (Inl (ValueError (''Could not open video file: '' @ chosen_path w)),
         [ModelLoaded, TrackerCreated, CaptureCreated, CaptureReleased, WindowsDestroyed]))"
  by (simp add: process_video_def process_video_try_def select_video_def)

theorem abort_before_processing_witness:
  "chosen_path \<lparr>chosen_path = [], opens = True, frame_height = 400,
      stream = [\<lparr>boxes = Inr [(0, 0, 10, 10, 3 / 4, 2)],
                 update_tracks = (\<lambda>detections. Inr ([] :: nat track list)),
                 wait_key = - 1\<rparr>],
      float_sub = (\<lambda>a b. a - b)\<rparr> = [] \<and>
   process_video \<lparr>chosen_path = [], opens = True, frame_height = 400,
      stream = [\<lparr>boxes = Inr [(0, 0, 10, 10, 3 / 4, 2)],
                 update_tracks = (\<lambda>detections. Inr ([] :: nat track list)),
                 wait_key = - 1\<rparr>],
      float_sub = (\<lambda>a b. a - b)\<rparr> =
     (Inl (ValueError ''No video file selected''), [WindowsDestroyed]) \<and>
   \<not> opens \<lparr>chosen_path = ''clip.mp4'', opens = False, frame_height = 0,
      stream = ([] :: nat frame_io list), float_sub = (\<lambda>a b. a - b)\<rparr> \<and>
   process_video \<lparr>chosen_path = ''clip.mp4'', opens = False, frame_height = 0,
      stream = ([] :: nat frame_io list), float_sub = (\<lambda>a b. a - b)\<rparr> =
     (Inl (ValueError ''Could not open video file: clip.mp4''),
      [ModelLoaded, TrackerCreated, CaptureCreated, CaptureReleased, WindowsDestroyed])"
  using
    abort_before_processing [of "\<lparr>chosen_path = [], opens = True, frame_height = 400,
      stream = [\<lparr>boxes = Inr [(0, 0, 10, 10, 3 / 4, 2)],
                 update_tracks = (\<lambda>detections. Inr ([] :: nat track list)),
                 wait_key = - 1\<rparr>],
      float_sub = (\<lambda>a b. a - b)\<rparr>"]
    abort_before_processing [of "\<lparr>chosen_path = ''clip.mp4'', opens = False,
      frame_height = 0, stream = ([] :: nat frame_io list), float_sub = (\<lambda>a b. a - b)\<rparr>"]
  by simp

end
